theory Spec2Isabelle
  imports Main "HOL-Library.Word"
begin

unbundle bit_operations_syntax

section \<open>The program laserdot.c as HOL functions\<close>

text \<open>
  The program runs on an 8-bit AVR: \<open>uint8_t\<close> is \<open>8 word\<close>, \<open>uint16_t\<close> is
  \<open>16 word\<close>, \<open>uint32_t\<close> is \<open>32 word\<close>. The build gives it three things that are
  parameters here: the clock frequency \<open>F_CPU\<close> in Hz (an \<open>unsigned long\<close>, so a
  \<open>32 word\<close>) and the two switches \<open>LIMIT_PULSE_UP\<close> and \<open>TEST\<close>.

  What the program does to the outside is the sequence of values it writes to the
  register \<open>PORTB\<close> and the empty \<open>asm\<close> statements it executes between them (the only
  way it spends time). The state carries that sequence as \<open>trace\<close>. What it takes from
  the outside is the byte stored in the EEPROM and the values it gets from its successive
  reads of the register \<open>PINB\<close>.
\<close>

subsection \<open>State\<close>

datatype event =
    Out "8 word"  \<comment> \<open>a write of this value to \<open>PORTB\<close>\<close>
  | Nop           \<comment> \<open>one execution of \<open>asm volatile("")\<close>\<close>

datatype phase =
    Mirroring_Low   \<comment> \<open>at the condition of the first inner \<open>while\<close> of \<open>loop\<close>\<close>
  | Mirroring_High  \<comment> \<open>at the condition of the second inner \<open>while\<close> of \<open>loop\<close>\<close>

record state =
  DDRB :: "8 word"
  PORTB :: "8 word"
  pulse_high :: "16 word"
  pulse_low :: "16 word"
  tout :: "16 word"
  phase :: phase
  trace :: "event list"

text \<open>Bit numbers of \<open>avr/io.h\<close> and the macro \<open>_BV(bit)\<close>, which is \<open>1 << bit\<close>.\<close>

definition PB0 :: nat where "PB0 = 0"
definition PB1 :: nat where "PB1 = 1"
definition DDB1 :: nat where "DDB1 = 1"

definition BV :: "nat \<Rightarrow> 8 word" where
  "BV b = push_bit b 1"

definition STUCK :: "16 word" where
  "STUCK = 4000"

definition write_PORTB :: "8 word \<Rightarrow> state \<Rightarrow> state" where
  "write_PORTB v s = s\<lparr>PORTB := v, trace := trace s @ [Out v]\<rparr>"

subsection \<open>Timing primitives\<close>

text \<open>
  \<open>(uint32_t)us * (F_CPU / 100000) / 50 + 1\<close>, computed on 32 bits and returned as
  \<open>uint16_t\<close>, which keeps the low 16 bits.
\<close>

definition us2loops :: "32 word \<Rightarrow> 16 word \<Rightarrow> 16 word" where
  "us2loops F_CPU us = ucast ((ucast us :: 32 word) * (F_CPU div 100000) div 50 + 1)"

text \<open>
  \<open>while (loops--) asm volatile("");\<close> The test reads the counter before the decrement;
  the counter is a local copy, so its value after the loop is lost.
\<close>

function delay :: "16 word \<Rightarrow> state \<Rightarrow> state" where
  "delay loops s =
     (if loops = 0 then s else delay (loops - 1) (s\<lparr>trace := trace s @ [Nop]\<rparr>))"
  by pat_completeness auto
termination
  by (relation "measure (\<lambda>(loops, s). unat loops)") (auto simp: unat_minus_one unat_gt_0)

declare delay.simps [simp del]

text \<open>The loop inside \<open>send_pulse\<close> is the loop of \<open>delay\<close> on \<open>width\<close>.\<close>

definition send_pulse :: "nat \<Rightarrow> 16 word \<Rightarrow> state \<Rightarrow> state" where
  "send_pulse port width s =
     (let s1 = write_PORTB (PORTB s OR BV port) s;
          s2 = delay width s1
      in write_PORTB (PORTB s2 AND NOT (BV port)) s2)"

definition delay_us :: "32 word \<Rightarrow> 16 word \<Rightarrow> state \<Rightarrow> state" where
  "delay_us F_CPU us s = delay (us2loops F_CPU us) s"

definition send_pulse_us :: "32 word \<Rightarrow> nat \<Rightarrow> 16 word \<Rightarrow> state \<Rightarrow> state" where
  "send_pulse_us F_CPU port width s = send_pulse port (us2loops F_CPU width) s"

subsection \<open>The polling loop\<close>

text \<open>
  The body of both inner loops:
  \<open>if (!tout--) { send_pulse(PB1, pulse_high); delay(pulse_low); tout = STUCK; }\<close>
  The test is on the value of \<open>tout\<close> before the decrement, and the decrement happens on
  both branches.
\<close>

definition check_tout :: "state \<Rightarrow> state" where
  "check_tout s =
     (let t = tout s;
          s1 = s\<lparr>tout := t - 1\<rparr>
      in if t = 0
         then (delay (pulse_low s1) (send_pulse PB1 (pulse_high s1) s1))\<lparr>tout := STUCK\<rparr>
         else s1)"

text \<open>
  One read of \<open>PINB\<close> by the condition of the first inner loop, and what follows it up to
  the next read: the body when PB0 reads low, else the exit, which sets PB1, reloads
  \<open>tout\<close> and goes to the second inner loop.
\<close>

definition poll_low :: "state \<Rightarrow> 8 word \<Rightarrow> state" where
  "poll_low s pinb =
     (if pinb AND BV PB0 = 0 then check_tout s
      else (write_PORTB (PORTB s OR BV PB1) s)\<lparr>tout := STUCK, phase := Mirroring_High\<rparr>)"

text \<open>
  One read of \<open>PINB\<close> by the condition of the second inner loop. Its body is empty
  unless \<open>LIMIT_PULSE_UP\<close> is defined. The exit clears PB1 and starts the outer loop
  again, which reloads \<open>tout\<close>.
\<close>

definition poll_high :: "bool \<Rightarrow> state \<Rightarrow> 8 word \<Rightarrow> state" where
  "poll_high LIMIT_PULSE_UP s pinb =
     (if pinb AND BV PB0 \<noteq> 0 then (if LIMIT_PULSE_UP then check_tout s else s)
      else (write_PORTB (PORTB s AND NOT (BV PB1)) s)\<lparr>tout := STUCK, phase := Mirroring_Low\<rparr>)"

definition poll :: "bool \<Rightarrow> state \<Rightarrow> 8 word \<Rightarrow> state" where
  "poll LIMIT_PULSE_UP s pinb =
     (case phase s of
        Mirroring_Low \<Rightarrow> poll_low s pinb
      | Mirroring_High \<Rightarrow> poll_high LIMIT_PULSE_UP s pinb)"

fun polls :: "bool \<Rightarrow> state \<Rightarrow> 8 word list \<Rightarrow> state" where
  "polls LIMIT_PULSE_UP s [] = s"
| "polls LIMIT_PULSE_UP s (pinb # pins) = polls LIMIT_PULSE_UP (poll LIMIT_PULSE_UP s pinb) pins"

text \<open>
  \<open>loop\<close> never returns. Its argument \<open>pins\<close> is what the successive reads of \<open>PINB\<close>
  give, and its value is the state reached when these reads have been used up.
\<close>

definition loop :: "bool \<Rightarrow> 8 word list \<Rightarrow> state \<Rightarrow> state" where
  "loop LIMIT_PULSE_UP pins s =
     polls LIMIT_PULSE_UP (s\<lparr>tout := STUCK, phase := Mirroring_Low\<rparr>) pins"

subsection \<open>Start-up\<close>

text \<open>
  The function \<open>setup\<close> of the source (the name is a command of Isabelle);
  \<open>intensity\<close> is the byte that \<open>eeprom_read_byte\<close> returns.
\<close>

definition setup_mcu :: "32 word \<Rightarrow> 8 word \<Rightarrow> state \<Rightarrow> state" where
  "setup_mcu F_CPU intensity s =
     (let s1 = s\<lparr>DDRB := BV DDB1\<rparr>;
          s2 = write_PORTB (PORTB s1 OR BV PB0) s1;
          s3 = write_PORTB (PORTB s2 AND NOT (BV PB1)) s2;
          s4 = s3\<lparr>pulse_high := ucast intensity\<rparr>;
          s5 = (if pulse_high s4 = 0xff then s4\<lparr>pulse_high := 5\<rparr> else s4);
          s6 = s5\<lparr>pulse_low := us2loops F_CPU (1000 - pulse_high s5)\<rparr>
      in s6\<lparr>pulse_high := us2loops F_CPU (pulse_high s6)\<rparr>)"

text \<open>
  The loop of the test mode, \<open>while (1) { delay_us(500); PORTB ^= _BV(PB1); }\<close>, run
  for \<open>n\<close> iterations.
\<close>

fun test_loop :: "32 word \<Rightarrow> nat \<Rightarrow> state \<Rightarrow> state" where
  "test_loop F_CPU 0 s = s"
| "test_loop F_CPU (Suc n) s =
     test_loop F_CPU n
       (let s1 = delay_us F_CPU 500 s in write_PORTB (PORTB s1 XOR BV PB1) s1)"

text \<open>
  The state of the machine when \<open>main\<close> starts: the two registers hold what the reset
  left there, the static variables are zero, nothing has been written yet.
\<close>

definition reset :: "8 word \<Rightarrow> 8 word \<Rightarrow> state" where
  "reset ddrb portb =
     \<lparr>DDRB = ddrb, PORTB = portb, pulse_high = 0, pulse_low = 0, tout = 0,
      phase = Mirroring_Low, trace = []\<rparr>"

text \<open>
  \<open>main\<close> never returns either: with \<open>TEST\<close> its value is the state after \<open>n\<close>
  iterations of the test loop, without it the state when the reads \<open>pins\<close> are used up.
\<close>

definition main :: "32 word \<Rightarrow> bool \<Rightarrow> bool \<Rightarrow> 8 word \<Rightarrow> nat \<Rightarrow> 8 word list \<Rightarrow> state \<Rightarrow> state" where
  "main F_CPU LIMIT_PULSE_UP TEST intensity n pins s =
     (let s1 = setup_mcu F_CPU intensity s
      in if TEST then test_loop F_CPU n s1 else loop LIMIT_PULSE_UP pins s1)"

section \<open>Vocabulary of the properties\<close>

text \<open>The two tests of the polling loop on what it read, and the level of the output pin.\<close>

definition input_high :: "8 word \<Rightarrow> bool" where
  "input_high pinb = (pinb AND BV PB0 \<noteq> 0)"

definition output_high :: "state \<Rightarrow> bool" where
  "output_high s = (PORTB s AND BV PB1 \<noteq> 0)"

text \<open>
  A substitute pulse as the specification describes it: the output driven high, held for
  \<open>pulse_high\<close> loop iterations, driven low, held for \<open>pulse_low\<close> loop iterations.
\<close>

definition pulse :: "state \<Rightarrow> event list" where
  "pulse s =
     [Out (PORTB s OR BV PB1)] @ replicate (unat (pulse_high s)) Nop @
     [Out (PORTB s AND NOT (BV PB1))] @ replicate (unat (pulse_low s)) Nop"

text \<open>
  The output of a pure mirror, following the specification: one write of \<open>PORTB\<close> at each
  read whose level differs from the level \<open>lvl\<close> of the read before it, setting PB1 when
  it is high and clearing it when it is low, and nothing else.
\<close>

fun mirror :: "8 word \<Rightarrow> bool \<Rightarrow> 8 word list \<Rightarrow> event list" where
  "mirror portb lvl [] = []"
| "mirror portb lvl (pinb # pins) =
     (if input_high pinb = lvl then mirror portb lvl pins
      else (let v = (if input_high pinb then portb OR BV PB1 else portb AND NOT (BV PB1))
            in Out v # mirror v (input_high pinb) pins))"

text \<open>
  The input changes level within the budget: no read finds the level \<open>lvl\<close> unchanged
  when \<open>n\<close> reads since the last change (\<open>c\<close> counts them) have already found it so.
\<close>

fun changes_within :: "nat \<Rightarrow> nat \<Rightarrow> bool \<Rightarrow> 8 word list \<Rightarrow> bool" where
  "changes_within n c lvl [] = True"
| "changes_within n c lvl (pinb # pins) =
     (if input_high pinb = lvl then c < n \<and> changes_within n (Suc c) lvl pins
      else changes_within n 0 (input_high pinb) pins)"

text \<open>
  The range in which \<open>us2loops\<close> does not overflow: the number of loops fits the 16 bits
  of the result (``limited to 64k loops'').
\<close>

definition no_overflow :: "32 word \<Rightarrow> 16 word \<Rightarrow> bool" where
  "no_overflow F_CPU us = (unat us * (unat F_CPU div 100000) div 50 + 1 < 65536)"

section \<open>Bits and bytes\<close>

lemma or_and_not: "(p OR b) AND NOT b = p AND NOT b" for p b :: "'a::len word"
  by (rule bit_eqI) (auto simp: bit_simps)

lemma and_not_or: "(p AND NOT b) OR b = p OR b" for p b :: "'a::len word"
  by (rule bit_eqI) (auto simp: bit_simps)

lemma and_not_and_not: "(p AND NOT b) AND NOT b = p AND NOT b" for p b :: "'a::len word"
  by (rule bit_eqI) (auto simp: bit_simps)

lemma or_and_same: "(p OR b) AND b = b" for p b :: "'a::len word"
  by (rule bit_eqI) (auto simp: bit_simps)

lemma and_not_and_same: "(p AND NOT b) AND b = 0" for p b :: "'a::len word"
  by (rule bit_eqI) (auto simp: bit_simps)

lemma xor_xor_same: "(p XOR b) XOR b = p" for p b :: "'a::len word"
  by (rule bit_eqI) (auto simp: bit_simps)

lemma xor_eq_or:
  fixes p b :: "'a::len word"
  assumes "p AND b = 0"
  shows "p XOR b = p OR b"
proof (rule bit_eqI)
  fix n
  have "bit (p AND b) n = bit (0 :: 'a word) n" by (simp add: assms)
  then have "\<not> (bit p n \<and> bit b n)" by (simp add: bit_and_iff)
  then show "bit (p XOR b) n = bit (p OR b) n"
    by (auto simp: bit_xor_iff bit_or_iff)
qed

lemma BV_PB0: "BV PB0 = 1"
  by (simp add: BV_def PB0_def)

lemma BV_PB1: "BV PB1 = 2"
  by (simp add: BV_def PB1_def)

lemma unat_STUCK: "unat STUCK = 4000"
  by (simp add: STUCK_def)

lemma output_high_set: "output_high (s\<lparr>PORTB := p OR BV PB1\<rparr>)"
  by (simp add: output_high_def or_and_same) (simp add: BV_PB1)

lemma output_high_clear: "\<not> output_high (s\<lparr>PORTB := p AND NOT (BV PB1)\<rparr>)"
  by (simp add: output_high_def and_not_and_same)

lemma unat_ucast_8_16: "unat (ucast x :: 16 word) = unat x" for x :: "8 word"
proof -
  have "unat x < 256" using unsigned_less [of x, where 'a = nat] by simp
  then show ?thesis by (simp add: unsigned_ucast_eq take_bit_eq_mod)
qed

lemma ucast_eq_255: "(ucast x :: 16 word) = 255 \<longleftrightarrow> x = 255" for x :: "8 word"
  by (simp add: word_unat_eq_iff unat_ucast_8_16)

lemma unat_1000_minus:
  "unat (1000 - ucast x :: 16 word) = 1000 - unat x" for x :: "8 word"
proof -
  have b: "unat x < 256" using unsigned_less [of x, where 'a = nat] by simp
  have "(ucast x :: 16 word) \<le> 1000"
    using b by (simp add: word_le_nat_alt unat_ucast_8_16)
  then have "unat (1000 - ucast x :: 16 word) = unat (1000 :: 16 word) - unat (ucast x :: 16 word)"
    by (rule unat_sub)
  then show ?thesis by (simp add: unat_ucast_8_16)
qed

section \<open>The conversion of microseconds to loops\<close>

text \<open>The product never overflows its 32 bits; only the conversion to 16 bits can lose.\<close>

lemma unat_us2loops:
  "unat (us2loops F us) = (unat us * (unat F div 100000) div 50 + 1) mod 65536"
proof -
  have F: "unat F < 4294967296" using unsigned_less [of F, where 'a = nat] by simp
  have U: "unat us < 65536" using unsigned_less [of us, where 'a = nat] by simp
  have k: "unat F div 100000 \<le> 42949" using F by simp
  have "unat us * (unat F div 100000) \<le> 65535 * 42949"
    using U k by (intro mult_mono) simp_all
  then have p: "unat us * (unat F div 100000) < 4294967296" by simp
  have c: "unat (ucast us :: 32 word) = unat us"
    using U by (simp add: unsigned_ucast_eq take_bit_eq_mod)
  have m: "unat ((ucast us :: 32 word) * (F div 100000)) = unat us * (unat F div 100000)"
  proof -
    have q: "unat (F div 100000) = unat F div 100000" by (simp add: unat_div)
    have "unat (ucast us :: 32 word) * unat (F div 100000) < 2 ^ LENGTH(32)"
      using p by (simp add: c q)
    then have "unat ((ucast us :: 32 word) * (F div 100000)) = unat (ucast us :: 32 word) * unat (F div 100000)"
      by (simp only: unat_mult_lem)
    then show ?thesis by (simp only: c q)
  qed
  have d: "unat ((ucast us :: 32 word) * (F div 100000) div 50) = unat us * (unat F div 100000) div 50"
    by (simp add: unat_div m)
  have "unat ((ucast us :: 32 word) * (F div 100000) div 50) + unat (1 :: 32 word) < 2 ^ LENGTH(32)"
    using p by (simp add: d)
  then have "unat ((ucast us :: 32 word) * (F div 100000) div 50 + 1)
             = unat ((ucast us :: 32 word) * (F div 100000) div 50) + unat (1 :: 32 word)"
    by (simp only: unat_add_lem)
  then have a: "unat ((ucast us :: 32 word) * (F div 100000) div 50 + 1) = unat us * (unat F div 100000) div 50 + 1"
    by (simp add: d)
  show ?thesis
    unfolding us2loops_def by (simp add: unsigned_ucast_eq take_bit_eq_mod a)
qed

lemma us2loops_no_overflow:
  "no_overflow F us \<Longrightarrow> unat (us2loops F us) = unat us * (unat F div 100000) div 50 + 1"
  by (simp add: unat_us2loops no_overflow_def)

lemma no_overflow_mono:
  assumes "a \<le> b" and "no_overflow F b"
  shows "no_overflow F a"
proof -
  from assms(1) have "unat a \<le> unat b" by (simp add: word_le_nat_alt)
  then have "unat a * (unat F div 100000) div 50 \<le> unat b * (unat F div 100000) div 50"
    by (intro div_le_mono mult_le_mono1)
  with assms(2) show ?thesis by (simp add: no_overflow_def)
qed

lemma us2loops_mono_aux:
  assumes "a \<le> b" and "no_overflow F b"
  shows "us2loops F a \<le> us2loops F b"
proof -
  from assms(1) have "unat a \<le> unat b" by (simp add: word_le_nat_alt)
  then have "unat a * (unat F div 100000) div 50 \<le> unat b * (unat F div 100000) div 50"
    by (intro div_le_mono mult_le_mono1)
  then show ?thesis
    using assms no_overflow_mono [OF assms]
    by (simp add: word_le_nat_alt us2loops_no_overflow)
qed

section \<open>Start-up\<close>

lemma setup_pulse_high:
  "pulse_high (setup_mcu F intensity s) = us2loops F (if intensity = 255 then 5 else ucast intensity)"
  by (simp add: setup_mcu_def Let_def write_PORTB_def ucast_eq_255)

lemma setup_pulse_low:
  "pulse_low (setup_mcu F intensity s) = us2loops F (1000 - (if intensity = 255 then 5 else ucast intensity))"
  by (simp add: setup_mcu_def Let_def write_PORTB_def ucast_eq_255)

lemma setup_PORTB:
  "PORTB (setup_mcu F intensity s) = (PORTB s OR BV PB0) AND NOT (BV PB1)"
  by (simp add: setup_mcu_def Let_def write_PORTB_def)

lemma period_tolerance:
  fixes intensity :: "8 word"
  assumes ne: "intensity \<noteq> 255" and fit: "no_overflow F 1000"
  shows "unat (us2loops F (ucast intensity)) + unat (us2loops F (1000 - ucast intensity))
           = unat (us2loops F 1000)
       \<or> unat (us2loops F (ucast intensity)) + unat (us2loops F (1000 - ucast intensity))
           = unat (us2loops F 1000) + 1"
proof -
  let ?a = "ucast intensity :: 16 word"
  let ?k = "unat F div 100000"
  have b: "unat intensity < 256" using unsigned_less [of intensity, where 'a = nat] by simp
  have ua: "unat ?a = unat intensity" by (rule unat_ucast_8_16)
  have ub: "unat (1000 - ?a) = 1000 - unat intensity" by (rule unat_1000_minus)
  have "?a \<le> 1000" using b by (simp add: word_le_nat_alt ua)
  then have fa: "no_overflow F ?a" using fit by (rule no_overflow_mono)
  have "1000 - ?a \<le> 1000" by (simp add: word_le_nat_alt ub)
  then have fb: "no_overflow F (1000 - ?a)" using fit by (rule no_overflow_mono)
  have sum: "unat intensity * ?k + (1000 - unat intensity) * ?k = 1000 * ?k"
    using b by (simp add: add_mult_distrib [symmetric])
  define x where "x = unat intensity * ?k"
  define y where "y = (1000 - unat intensity) * ?k"
  from sum have xy: "x + y = 1000 * ?k" by (simp add: x_def y_def)
  have "x div 50 + y div 50 = (x + y) div 50 \<or> x div 50 + y div 50 + 1 = (x + y) div 50"
    by arith
  then have "x div 50 + 1 + (y div 50 + 1) = 1000 * ?k div 50 + 1 + 1
           \<or> x div 50 + 1 + (y div 50 + 1) = 1000 * ?k div 50 + 1"
    unfolding xy by arith
  then show ?thesis
    by (auto simp: us2loops_no_overflow fa fb fit ua ub x_def y_def)
qed

section \<open>Busy waiting and pulses\<close>

lemma delay_eq: "delay loops s = s\<lparr>trace := trace s @ replicate (unat loops) Nop\<rparr>"
proof (induction loops s rule: delay.induct)
  case (1 loops s)
  show ?case
  proof (cases "loops = 0")
    case True
    then show ?thesis by (simp add: delay.simps [of 0 s])
  next
    case False
    then have "unat loops = Suc (unat (loops - 1))"
      by (simp add: unat_minus_one unat_gt_0)
    with False 1 show ?thesis
      by (simp add: delay.simps [of loops s] replicate_app_Cons_same)
  qed
qed

lemma send_pulse_eq:
  "send_pulse port width s =
     s\<lparr>PORTB := PORTB s AND NOT (BV port),
       trace := trace s @ [Out (PORTB s OR BV port)] @ replicate (unat width) Nop
                @ [Out (PORTB s AND NOT (BV port))]\<rparr>"
  by (simp add: send_pulse_def write_PORTB_def delay_eq or_and_not)

lemma check_tout_zero:
  "tout s = 0 \<Longrightarrow>
   check_tout s = s\<lparr>PORTB := PORTB s AND NOT (BV PB1), tout := STUCK, trace := trace s @ pulse s\<rparr>"
  by (simp add: check_tout_def Let_def send_pulse_eq delay_eq pulse_def)

lemma check_tout_nonzero:
  "tout s \<noteq> 0 \<Longrightarrow> check_tout s = s\<lparr>tout := tout s - 1\<rparr>"
  by (simp add: check_tout_def Let_def)

lemma polls_append:
  "polls lim s (xs @ ys) = polls lim (polls lim s xs) ys"
  by (induction xs arbitrary: s) simp_all

lemma pulse_after_pulse:
  "pulse (s\<lparr>PORTB := PORTB s AND NOT (BV PB1), tout := t, trace := tr\<rparr>) = pulse s"
  by (simp add: pulse_def and_not_or and_not_and_not)

lemma lows_quiet:
  "phase s = Mirroring_Low \<Longrightarrow> \<forall>p\<in>set pins. \<not> input_high p \<Longrightarrow>
   length pins \<le> unat (tout s) \<Longrightarrow>
   polls lim s pins = s\<lparr>tout := tout s - of_nat (length pins)\<rparr>"
proof (induction pins arbitrary: s)
  case Nil
  then show ?case by simp
next
  case (Cons p pins)
  from Cons.prems have nz: "tout s \<noteq> 0" by (auto simp: unat_gt_0 [symmetric])
  let ?s1 = "s\<lparr>tout := tout s - 1\<rparr>"
  from Cons.prems nz have step: "poll lim s p = ?s1"
    by (simp add: poll_def poll_low_def input_high_def check_tout_nonzero)
  from Cons.prems nz have "length pins \<le> unat (tout ?s1)"
    by (simp add: unat_minus_one)
  with Cons.prems have "polls lim ?s1 pins = ?s1\<lparr>tout := tout ?s1 - of_nat (length pins)\<rparr>"
    by (intro Cons.IH) simp_all
  with step show ?case by simp
qed

section \<open>The polling loop while the input stays low\<close>

lemma lows_period:
  assumes ph: "phase s = Mirroring_Low" and t: "tout s = STUCK"
    and low: "\<forall>p\<in>set pins. \<not> input_high p" and len: "length pins = Suc (unat STUCK)"
  shows "polls lim s pins =
         s\<lparr>PORTB := PORTB s AND NOT (BV PB1), tout := STUCK, trace := trace s @ pulse s\<rparr>"
proof -
  from len obtain p where split: "pins = butlast pins @ [p]"
    by (metis append_butlast_last_id length_0_conv nat.distinct(1))
  have bl: "length (butlast pins) = unat STUCK" using len by simp
  have lowb: "\<forall>p\<in>set (butlast pins). \<not> input_high p"
    using low by (auto dest: in_set_butlastD)
  have lowp: "\<not> input_high p"
    using low split by (metis in_set_conv_decomp)
  let ?s1 = "s\<lparr>tout := 0\<rparr>"
  have "polls lim s (butlast pins) = s\<lparr>tout := tout s - of_nat (length (butlast pins))\<rparr>"
    using ph lowb bl t by (intro lows_quiet) simp_all
  then have q: "polls lim s (butlast pins) = ?s1"
    using t bl by simp
  have "poll lim ?s1 p = ?s1\<lparr>PORTB := PORTB ?s1 AND NOT (BV PB1), tout := STUCK, trace := trace ?s1 @ pulse ?s1\<rparr>"
    using ph lowp by (simp add: poll_def poll_low_def input_high_def check_tout_zero)
  then have "poll lim ?s1 p = s\<lparr>PORTB := PORTB s AND NOT (BV PB1), tout := STUCK, trace := trace s @ pulse s\<rparr>"
    by (simp add: pulse_def)
  with q have "polls lim s (butlast pins @ [p]) =
      s\<lparr>PORTB := PORTB s AND NOT (BV PB1), tout := STUCK, trace := trace s @ pulse s\<rparr>"
    by (simp add: polls_append)
  with split show ?thesis by simp
qed

lemma lows_run:
  "phase s = Mirroring_Low \<Longrightarrow> tout s = STUCK \<Longrightarrow> \<forall>p\<in>set pins. \<not> input_high p \<Longrightarrow>
   polls lim s pins =
     s\<lparr>PORTB := (if length pins < Suc (unat STUCK) then PORTB s else PORTB s AND NOT (BV PB1)),
       tout := STUCK - of_nat (length pins mod Suc (unat STUCK)),
       trace := trace s @ concat (replicate (length pins div Suc (unat STUCK)) (pulse s))\<rparr>"
proof (induction "length pins" arbitrary: pins s rule: less_induct)
  case less
  show ?case
  proof (cases "length pins < Suc (unat STUCK)")
    case True
    then have "length pins \<le> unat (tout s)" using less.prems by simp
    with less.prems have "polls lim s pins = s\<lparr>tout := tout s - of_nat (length pins)\<rparr>"
      by (intro lows_quiet) simp_all
    with True less.prems show ?thesis by simp
  next
    case False
    let ?n = "Suc (unat STUCK)"
    let ?a = "take ?n pins" and ?b = "drop ?n pins"
    let ?s1 = "s\<lparr>PORTB := PORTB s AND NOT (BV PB1), tout := STUCK, trace := trace s @ pulse s\<rparr>"
    have la: "length ?a = ?n" using False by simp
    have lowa: "\<forall>p\<in>set ?a. \<not> input_high p"
      using less.prems by (auto dest: in_set_takeD)
    have lowb: "\<forall>p\<in>set ?b. \<not> input_high p"
      using less.prems by (auto dest: in_set_dropD)
    have a: "polls lim s ?a = ?s1"
      using less.prems(1,2) lowa la by (rule lows_period)
    have lb: "length ?b < length pins" using False by simp
    have b: "polls lim ?s1 ?b =
       ?s1\<lparr>PORTB := (if length ?b < ?n then PORTB ?s1 else PORTB ?s1 AND NOT (BV PB1)),
         tout := STUCK - of_nat (length ?b mod ?n),
         trace := trace ?s1 @ concat (replicate (length ?b div ?n) (pulse ?s1))\<rparr>"
      using lb less.prems(1) lowb by (intro less.hyps) simp_all
    have dv: "length pins div ?n = Suc (length ?b div ?n)"
      using False by (simp add: le_div_geq)
    have md: "length pins mod ?n = length ?b mod ?n"
      using False by (simp add: le_mod_geq)
    have "polls lim s pins = polls lim (polls lim s ?a) ?b"
      by (metis append_take_drop_id polls_append)
    with a b have "polls lim s pins =
       ?s1\<lparr>PORTB := (if length ?b < ?n then PORTB ?s1 else PORTB ?s1 AND NOT (BV PB1)),
         tout := STUCK - of_nat (length ?b mod ?n),
         trace := trace ?s1 @ concat (replicate (length ?b div ?n) (pulse ?s1))\<rparr>"
      by simp
    then show ?thesis
      using False by (simp add: dv md pulse_after_pulse and_not_and_not del: length_drop)
  qed
qed

section \<open>The polling loop while the input keeps changing\<close>

lemma mirror_no_Nop: "Nop \<notin> set (mirror portb lvl pins)"
  by (induction pins arbitrary: portb lvl) (simp_all add: Let_def)

lemma changes_within_take:
  "changes_within n c lvl pins \<Longrightarrow> changes_within n c lvl (take k pins)"
proof (induction pins arbitrary: c lvl k)
  case Nil
  then show ?case by simp
next
  case (Cons p pins)
  then show ?case by (cases k) (auto split: if_splits)
qed

lemma poll_quiet:
  assumes inv: "output_high s = (phase s = Mirroring_High)"
    and bud: "unat STUCK \<le> unat (tout s) + c"
    and ch: "changes_within (unat STUCK) c (phase s = Mirroring_High) (pinb # pins)"
  shows "\<exists>c'. output_high (poll lim s pinb) = (phase (poll lim s pinb) = Mirroring_High)
       \<and> (phase (poll lim s pinb) = Mirroring_High) = input_high pinb
       \<and> unat STUCK \<le> unat (tout (poll lim s pinb)) + c'
       \<and> changes_within (unat STUCK) c' (phase (poll lim s pinb) = Mirroring_High) pins
       \<and> trace (poll lim s pinb) @ mirror (PORTB (poll lim s pinb)) (phase (poll lim s pinb) = Mirroring_High) pins
           = trace s @ mirror (PORTB s) (phase s = Mirroring_High) (pinb # pins)"
proof (cases "input_high pinb = (phase s = Mirroring_High)")
  case True
  with ch have c: "c < unat STUCK" and ch': "changes_within (unat STUCK) (Suc c) (phase s = Mirroring_High) pins"
    by simp_all
  from c bud have nz: "tout s \<noteq> 0" by (auto simp: unat_gt_0 [symmetric])
  have step: "poll lim s pinb = s\<lparr>tout := tout s - 1\<rparr> \<or> poll lim s pinb = s"
    using True nz
    by (cases "phase s") (auto simp: poll_def poll_low_def poll_high_def input_high_def check_tout_nonzero)
  have t1: "unat STUCK \<le> unat (tout s - 1) + Suc c"
    using nz bud by (simp add: unat_minus_one unat_gt_0)
  from step show ?thesis
  proof
    assume e: "poll lim s pinb = s\<lparr>tout := tout s - 1\<rparr>"
    show ?thesis
      apply (rule exI [of _ "Suc c"])
      using True inv ch' t1 by (simp add: e output_high_def)
  next
    assume e: "poll lim s pinb = s"
    show ?thesis
      apply (rule exI [of _ "Suc c"])
      using True inv ch' bud by (simp add: e)
  qed
next
  case False
  with ch have ch': "changes_within (unat STUCK) 0 (input_high pinb) pins" by simp
  show ?thesis
  proof (cases "phase s")
    case Mirroring_Low
    with False have hi: "input_high pinb" by simp
    have e: "poll lim s pinb = (write_PORTB (PORTB s OR BV PB1) s)\<lparr>tout := STUCK, phase := Mirroring_High\<rparr>"
      using Mirroring_Low hi by (simp add: poll_def poll_low_def input_high_def)
    show ?thesis
      apply (rule exI [of _ 0])
      using hi ch' Mirroring_Low output_high_set [where p = "PORTB s"]
      by (simp add: e write_PORTB_def output_high_def Let_def)
  next
    case Mirroring_High
    with False have lo: "\<not> input_high pinb" by simp
    have e: "poll lim s pinb = (write_PORTB (PORTB s AND NOT (BV PB1)) s)\<lparr>tout := STUCK, phase := Mirroring_Low\<rparr>"
      using Mirroring_High lo by (simp add: poll_def poll_high_def input_high_def)
    show ?thesis
      apply (rule exI [of _ 0])
      using lo ch' Mirroring_High output_high_clear [where p = "PORTB s"]
      by (simp add: e write_PORTB_def output_high_def Let_def)
  qed
qed

lemma polls_quiet:
  "output_high s = (phase s = Mirroring_High) \<Longrightarrow> unat STUCK \<le> unat (tout s) + c \<Longrightarrow>
   changes_within (unat STUCK) c (phase s = Mirroring_High) pins \<Longrightarrow>
   trace (polls lim s pins) = trace s @ mirror (PORTB s) (phase s = Mirroring_High) pins
   \<and> (pins \<noteq> [] \<longrightarrow> output_high (polls lim s pins) = input_high (last pins))"
proof (induction pins arbitrary: s c)
  case Nil
  then show ?case by simp
next
  case (Cons pinb pins)
  let ?s1 = "poll lim s pinb"
  from poll_quiet [OF Cons.prems, of lim] obtain c' where
    inv: "output_high ?s1 = (phase ?s1 = Mirroring_High)"
    and lvl: "(phase ?s1 = Mirroring_High) = input_high pinb"
    and bud: "unat STUCK \<le> unat (tout ?s1) + c'"
    and ch: "changes_within (unat STUCK) c' (phase ?s1 = Mirroring_High) pins"
    and tr: "trace ?s1 @ mirror (PORTB ?s1) (phase ?s1 = Mirroring_High) pins
           = trace s @ mirror (PORTB s) (phase s = Mirroring_High) (pinb # pins)"
    by blast
  from Cons.IH [OF inv bud ch]
  have ih: "trace (polls lim ?s1 pins) = trace ?s1 @ mirror (PORTB ?s1) (phase ?s1 = Mirroring_High) pins"
    and ihl: "pins \<noteq> [] \<longrightarrow> output_high (polls lim ?s1 pins) = input_high (last pins)"
    by simp_all
  have "trace (polls lim s (pinb # pins)) = trace s @ mirror (PORTB s) (phase s = Mirroring_High) (pinb # pins)"
    using ih tr by simp
  moreover have "output_high (polls lim s (pinb # pins)) = input_high (last (pinb # pins))"
    using ihl inv lvl by (cases "pins = []") simp_all
  ultimately show ?case by blast
qed

section \<open>The input stuck high, the counter, the test loop\<close>

lemma highs_idle:
  "phase s = Mirroring_High \<Longrightarrow> \<forall>p\<in>set pins. input_high p \<Longrightarrow> polls False s pins = s"
  by (induction pins) (simp_all add: poll_def poll_high_def input_high_def)

lemma poll_tout_bound:
  assumes "tout s \<le> STUCK"
  shows "tout (poll lim s pinb) \<le> STUCK"
proof (cases "tout s = 0")
  case True
  then show ?thesis
    by (cases "phase s")
       (simp_all add: poll_def poll_low_def poll_high_def check_tout_zero)
next
  case False
  then have "tout s - 1 \<le> tout s"
    by (simp add: word_le_nat_alt unat_minus_one)
  with assms have "tout s - 1 \<le> STUCK" by simp
  with False assms show ?thesis
    by (cases "phase s")
       (simp_all add: poll_def poll_low_def poll_high_def check_tout_nonzero)
qed

lemma polls_tout_bound:
  "tout s \<le> STUCK \<Longrightarrow> tout (polls lim s pins) \<le> STUCK"
  by (induction pins arbitrary: s) (simp_all add: poll_tout_bound)

lemma test_loop_Suc_end:
  "test_loop F (Suc n) s =
     (let s1 = delay_us F 500 (test_loop F n s) in write_PORTB (PORTB s1 XOR BV PB1) s1)"
  by (induction n arbitrary: s) (simp_all add: Let_def)

lemma test_loop_eq:
  "test_loop F n s =
     s\<lparr>PORTB := (if even n then PORTB s else PORTB s XOR BV PB1),
       trace := trace s @ concat (map (\<lambda>i. replicate (unat (us2loops F 500)) Nop
                    @ [Out (if even i then PORTB s XOR BV PB1 else PORTB s)]) [0..<n])\<rparr>"
proof (induction n)
  case 0
  then show ?case by simp
next
  case (Suc n)
  show ?case
    unfolding test_loop_Suc_end
    by (simp add: Suc Let_def delay_us_def delay_eq write_PORTB_def xor_xor_same del: test_loop.simps)
qed


section \<open>The claims about the conversion and the calibration\<close>

text \<open>
  C2. For every stored intensity byte \<open>raw\<close> from 0 to 254, the calibration gives
  \<open>on_duration = us2loops raw\<close> and \<open>off_duration = us2loops (1000 - raw)\<close>. The two
  numbers of microseconds add up to exactly 1000 (the 16-bit subtraction does not wrap),
  so \<open>on_duration + off_duration = us2loops raw + us2loops (1000 - raw)\<close>. The rounding
  tolerance of the conversion is one loop: where \<open>us2loops 1000\<close> does not overflow, the
  two durations add up to \<open>us2loops 1000\<close> or to one more.
\<close>

theorem setup_durations:
  "intensity \<noteq> 255 \<Longrightarrow>
     pulse_high (setup_mcu F_CPU intensity s) = us2loops F_CPU (ucast intensity)
   \<and> pulse_low (setup_mcu F_CPU intensity s) = us2loops F_CPU (1000 - ucast intensity)
   \<and> unat (ucast intensity :: 16 word) + unat (1000 - ucast intensity :: 16 word) = 1000
   \<and> pulse_high (setup_mcu F_CPU intensity s) + pulse_low (setup_mcu F_CPU intensity s)
       = us2loops F_CPU (ucast intensity) + us2loops F_CPU (1000 - ucast intensity)
   \<and> (no_overflow F_CPU 1000 \<longrightarrow>
         unat (pulse_high (setup_mcu F_CPU intensity s)) + unat (pulse_low (setup_mcu F_CPU intensity s))
           \<in> {unat (us2loops F_CPU 1000), unat (us2loops F_CPU 1000) + 1})"
proof -
  assume ne: "intensity \<noteq> 255"
  have b: "unat intensity < 256" using unsigned_less [of intensity, where 'a = nat] by simp
  have h: "pulse_high (setup_mcu F_CPU intensity s) = us2loops F_CPU (ucast intensity)"
    using ne by (simp add: setup_pulse_high)
  have l: "pulse_low (setup_mcu F_CPU intensity s) = us2loops F_CPU (1000 - ucast intensity)"
    using ne by (simp add: setup_pulse_low)
  have u: "unat (ucast intensity :: 16 word) + unat (1000 - ucast intensity :: 16 word) = 1000"
    using b by (simp add: unat_ucast_8_16 unat_1000_minus)
  have t: "no_overflow F_CPU 1000 \<longrightarrow>
         unat (pulse_high (setup_mcu F_CPU intensity s)) + unat (pulse_low (setup_mcu F_CPU intensity s))
           \<in> {unat (us2loops F_CPU 1000), unat (us2loops F_CPU 1000) + 1}"
    using period_tolerance [OF ne, of F_CPU] by (auto simp: h l)
  from h l u t show ?thesis by simp
qed

theorem setup_durations_witness:
  "(10 :: 8 word) \<noteq> 255 \<and> no_overflow 16000000 1000
   \<and> pulse_high (setup_mcu 16000000 10 (reset 0 0)) = us2loops 16000000 10
   \<and> pulse_low (setup_mcu 16000000 10 (reset 0 0)) = us2loops 16000000 990
   \<and> unat (pulse_high (setup_mcu 16000000 10 (reset 0 0))) + unat (pulse_low (setup_mcu 16000000 10 (reset 0 0)))
       \<in> {unat (us2loops 16000000 1000), unat (us2loops 16000000 1000) + 1}"
proof -
  have h1: "(10 :: 8 word) \<noteq> 255" by simp
  have h2: "no_overflow 16000000 1000" by (simp add: no_overflow_def)
  from h1 h2 setup_durations [OF h1, of 16000000 "reset 0 0"] show ?thesis by auto
qed

text \<open>
  C3. The calibration with the stored byte 255 gives the same state, so the same pair of
  durations, as the calibration with the stored byte 5.
\<close>

theorem setup_sentinel: "setup_mcu F_CPU 255 s = setup_mcu F_CPU 5 s"
  by (simp add: setup_mcu_def Let_def)

text \<open>
  C4, as stated: for every stored byte other than 255, \<open>on_duration\<close> is at most
  \<open>us2loops 250\<close>. It fails on the byte 254 at 16 MHz, where \<open>on_duration\<close> is 813 and
  \<open>us2loops 250\<close> is 801.
\<close>

theorem pulse_high_cap_counterexample:
  "(254 :: 8 word) \<noteq> 255
   \<and> \<not> pulse_high (setup_mcu 16000000 254 (reset 0 0)) \<le> us2loops 16000000 250"
  by (simp add: setup_mcu_def Let_def write_PORTB_def reset_def us2loops_def)

text \<open>
  C4, amended: nothing clamps the byte, so the bound is the one of its range. For every
  stored byte other than 255, \<open>on_duration\<close> is at most \<open>us2loops 254\<close>, and it is at
  most \<open>us2loops 250\<close> when the byte is at most 250; both for a clock at which
  \<open>us2loops 254\<close> does not overflow.
\<close>

theorem pulse_high_cap:
  "intensity \<noteq> 255 \<Longrightarrow> no_overflow F_CPU 254 \<Longrightarrow>
     pulse_high (setup_mcu F_CPU intensity s) \<le> us2loops F_CPU 254
   \<and> (intensity \<le> 250 \<longrightarrow> pulse_high (setup_mcu F_CPU intensity s) \<le> us2loops F_CPU 250)"
proof -
  assume ne: "intensity \<noteq> 255" and fit: "no_overflow F_CPU 254"
  have b: "unat intensity < 256" using unsigned_less [of intensity, where 'a = nat] by simp
  from ne have "unat intensity \<noteq> 255" by (simp add: word_unat_eq_iff)
  with b have le: "(ucast intensity :: 16 word) \<le> 254"
    by (simp add: word_le_nat_alt unat_ucast_8_16)
  have h: "pulse_high (setup_mcu F_CPU intensity s) = us2loops F_CPU (ucast intensity)"
    using ne by (simp add: setup_pulse_high)
  have c1: "pulse_high (setup_mcu F_CPU intensity s) \<le> us2loops F_CPU 254"
    unfolding h using le fit by (rule us2loops_mono_aux)
  have "(250 :: 16 word) \<le> 254" by simp
  then have fit': "no_overflow F_CPU 250" using fit by (rule no_overflow_mono)
  have c2: "pulse_high (setup_mcu F_CPU intensity s) \<le> us2loops F_CPU 250" if "intensity \<le> 250"
  proof -
    from that have "(ucast intensity :: 16 word) \<le> 250"
      by (simp add: word_le_nat_alt unat_ucast_8_16)
    then show ?thesis unfolding h using fit' by (rule us2loops_mono_aux)
  qed
  from c1 c2 show ?thesis by blast
qed

theorem pulse_high_cap_witness:
  "(254 :: 8 word) \<noteq> 255 \<and> (250 :: 8 word) \<noteq> 255 \<and> (250 :: 8 word) \<le> 250
   \<and> no_overflow 16000000 254
   \<and> pulse_high (setup_mcu 16000000 254 (reset 0 0)) \<le> us2loops 16000000 254
   \<and> pulse_high (setup_mcu 16000000 250 (reset 0 0)) \<le> us2loops 16000000 250"
proof -
  have h1: "(254 :: 8 word) \<noteq> 255" by simp
  have h2: "no_overflow 16000000 254" by (simp add: no_overflow_def)
  have h3: "(250 :: 8 word) \<noteq> 255" by simp
  have h4: "(250 :: 8 word) \<le> 250" by simp
  from h1 h2 h3 h4 pulse_high_cap [OF h1 h2, of "reset 0 0"] pulse_high_cap [OF h3 h2, of "reset 0 0"]
  show ?thesis by blast
qed

text \<open>
  C6, as stated: \<open>us2loops\<close> returns at least 1 for every input. It fails at 9.6 MHz on
  34133 microseconds, where the number of loops is 65536 and its low 16 bits are 0.
\<close>

theorem us2loops_zero_counterexample: "\<not> 1 \<le> us2loops 9600000 34133"
  by (simp add: us2loops_def word_le_nat_alt)

text \<open>
  C6, amended: \<open>us2loops 0\<close> is 1 at every clock frequency, and \<open>us2loops\<close> returns at
  least 1 for every input in the range where it does not overflow.
\<close>

theorem us2loops_at_least_1:
  "us2loops F_CPU 0 = 1 \<and> (no_overflow F_CPU us \<longrightarrow> 1 \<le> us2loops F_CPU us)"
proof
  show "us2loops F_CPU 0 = 1" by (simp add: us2loops_def)
  show "no_overflow F_CPU us \<longrightarrow> 1 \<le> us2loops F_CPU us"
    by (simp add: word_le_nat_alt us2loops_no_overflow)
qed

theorem us2loops_at_least_1_witness:
  "no_overflow 9600000 34132 \<and> 1 \<le> us2loops 9600000 34132"
proof -
  have h: "no_overflow 9600000 34132" by (simp add: no_overflow_def)
  with us2loops_at_least_1 [of 9600000 34132] show ?thesis by blast
qed

text \<open>
  C7. \<open>us2loops\<close> is monotonically non-decreasing in the range where it does not
  overflow: for \<open>a \<le> b\<close> with \<open>b\<close> in that range, \<open>us2loops a \<le> us2loops b\<close>.
\<close>

theorem us2loops_mono:
  "a \<le> b \<Longrightarrow> no_overflow F_CPU b \<Longrightarrow> us2loops F_CPU a \<le> us2loops F_CPU b"
  by (rule us2loops_mono_aux)

theorem us2loops_mono_witness:
  "(5 :: 16 word) \<le> 995 \<and> no_overflow 16000000 995 \<and> us2loops 16000000 5 \<le> us2loops 16000000 995"
proof -
  have h1: "(5 :: 16 word) \<le> 995" by simp
  have h2: "no_overflow 16000000 995" by (simp add: no_overflow_def)
  from h1 h2 us2loops_mono [OF h1 h2] show ?thesis by blast
qed

section \<open>The claims about the polling loop and the test mode\<close>

text \<open>
  C1. While the input reads low at every poll, the loop started with a full countdown
  emits one substitute pulse every \<open>STUCK + 1\<close> polls and nothing else: after
  \<open>length pins\<close> polls it has written \<open>length pins div (STUCK + 1)\<close> pulses, each one
  the output driven high, \<open>pulse_high\<close> loop iterations, the output driven low and
  \<open>pulse_low\<close> loop iterations, and it is still polling for a high input with the
  countdown at \<open>STUCK\<close> minus the polls since the last pulse. Whenever a poll finds the
  input low and \<open>tout\<close> at zero, it emits that pulse and sets \<open>tout\<close> back to \<open>STUCK\<close>.
\<close>

theorem watchdog_pulse_when_low:
  "\<forall>p\<in>set pins. \<not> input_high p \<Longrightarrow>
     trace (loop LIMIT_PULSE_UP pins s)
       = trace s @ concat (replicate (length pins div Suc (unat STUCK)) (pulse s))
   \<and> tout (loop LIMIT_PULSE_UP pins s) = STUCK - of_nat (length pins mod Suc (unat STUCK))
   \<and> phase (loop LIMIT_PULSE_UP pins s) = Mirroring_Low
   \<and> (\<forall>s' pinb. phase s' = Mirroring_Low \<and> tout s' = 0 \<and> \<not> input_high pinb \<longrightarrow>
         poll LIMIT_PULSE_UP s' pinb
           = s'\<lparr>PORTB := PORTB s' AND NOT (BV PB1), tout := STUCK, trace := trace s' @ pulse s'\<rparr>)"
proof -
  assume low: "\<forall>p\<in>set pins. \<not> input_high p"
  let ?s0 = "s\<lparr>tout := STUCK, phase := Mirroring_Low\<rparr>"
  have "polls LIMIT_PULSE_UP ?s0 pins =
     ?s0\<lparr>PORTB := (if length pins < Suc (unat STUCK) then PORTB ?s0 else PORTB ?s0 AND NOT (BV PB1)),
       tout := STUCK - of_nat (length pins mod Suc (unat STUCK)),
       trace := trace ?s0 @ concat (replicate (length pins div Suc (unat STUCK)) (pulse ?s0))\<rparr>"
    using low by (intro lows_run) simp_all
  moreover have "pulse ?s0 = pulse s" by (simp add: pulse_def)
  ultimately have run: "loop LIMIT_PULSE_UP pins s =
     ?s0\<lparr>PORTB := (if length pins < Suc (unat STUCK) then PORTB s else PORTB s AND NOT (BV PB1)),
       tout := STUCK - of_nat (length pins mod Suc (unat STUCK)),
       trace := trace s @ concat (replicate (length pins div Suc (unat STUCK)) (pulse s))\<rparr>"
    by (simp add: loop_def)
  have step: "poll LIMIT_PULSE_UP s' pinb
           = s'\<lparr>PORTB := PORTB s' AND NOT (BV PB1), tout := STUCK, trace := trace s' @ pulse s'\<rparr>"
    if "phase s' = Mirroring_Low" "tout s' = 0" "\<not> input_high pinb" for s' pinb
    using that by (simp add: poll_def poll_low_def input_high_def check_tout_zero)
  from run step show ?thesis by simp
qed

theorem watchdog_pulse_when_low_witness:
  "list_all (\<lambda>p. \<not> input_high p) (replicate 8002 (0 :: 8 word))
   \<and> trace (loop False (replicate 8002 0) (setup_mcu 16000000 5 (reset 0 0)))
       = trace (setup_mcu 16000000 5 (reset 0 0))
         @ pulse (setup_mcu 16000000 5 (reset 0 0)) @ pulse (setup_mcu 16000000 5 (reset 0 0))
   \<and> tout (loop False (replicate 8002 0) (setup_mcu 16000000 5 (reset 0 0))) = STUCK
   \<and> phase (reset 0 0\<lparr>tout := 0\<rparr>) = Mirroring_Low \<and> tout (reset 0 0\<lparr>tout := 0\<rparr>) = 0
   \<and> \<not> input_high 0
   \<and> poll False (reset 0 0\<lparr>tout := 0\<rparr>) 0
       = reset 0 0\<lparr>tout := 0, PORTB := PORTB (reset 0 0\<lparr>tout := 0\<rparr>) AND NOT (BV PB1), tout := STUCK,
                    trace := trace (reset 0 0\<lparr>tout := 0\<rparr>) @ pulse (reset 0 0\<lparr>tout := 0\<rparr>)\<rparr>"
proof -
  let ?s = "setup_mcu 16000000 5 (reset 0 0)"
  have h: "\<forall>p\<in>set (replicate 8002 (0 :: 8 word)). \<not> input_high p"
    by (simp add: input_high_def)
  have d: "(8002 :: nat) div Suc (unat STUCK) = Suc (Suc 0)" "(8002 :: nat) mod Suc (unat STUCK) = 0"
    by (simp_all add: unat_STUCK)
  note r = watchdog_pulse_when_low [OF h, of False ?s]
  from r d have run: "trace (loop False (replicate 8002 0) ?s) = trace ?s @ pulse ?s @ pulse ?s
      \<and> tout (loop False (replicate 8002 0) ?s) = STUCK"
    by simp
  have g1: "phase (reset 0 0\<lparr>tout := 0\<rparr>) = Mirroring_Low" by (simp add: reset_def)
  have g2: "tout (reset 0 0\<lparr>tout := 0\<rparr>) = 0" by simp
  have g3: "\<not> input_high 0" by (simp add: input_high_def)
  from r g1 g2 g3 have step: "poll False (reset 0 0\<lparr>tout := 0\<rparr>) 0
       = reset 0 0\<lparr>tout := 0, PORTB := PORTB (reset 0 0\<lparr>tout := 0\<rparr>) AND NOT (BV PB1), tout := STUCK,
                    trace := trace (reset 0 0\<lparr>tout := 0\<rparr>) @ pulse (reset 0 0\<lparr>tout := 0\<rparr>)\<rparr>"
    by blast
  have h0: "list_all (\<lambda>p. \<not> input_high p) (replicate 8002 (0 :: 8 word))"
    using h by (simp only: list_all_iff)
  from h0 run g1 g2 g3 step show ?thesis by blast
qed

text \<open>
  C5. When the input changes level before the countdown runs out, the loop only mirrors
  it: what it writes is one write of \<open>PORTB\<close> per change of level, setting PB1 on a high
  read and clearing it on a low read, with no busy waiting, so no substitute pulse; and
  after every poll the level of the output is the level that this poll has read.
\<close>

theorem loop_mirrors_input:
  "changes_within (unat STUCK) 0 False pins \<Longrightarrow> \<not> output_high s \<Longrightarrow>
     trace (loop LIMIT_PULSE_UP pins s) = trace s @ mirror (PORTB s) False pins
   \<and> Nop \<notin> set (mirror (PORTB s) False pins)
   \<and> (\<forall>i<length pins.
         output_high (loop LIMIT_PULSE_UP (take (Suc i) pins) s) = input_high (pins ! i))"
proof -
  assume ch: "changes_within (unat STUCK) 0 False pins" and off: "\<not> output_high s"
  let ?s0 = "s\<lparr>tout := STUCK, phase := Mirroring_Low\<rparr>"
  have inv: "output_high ?s0 = (phase ?s0 = Mirroring_High)"
    using off by (simp add: output_high_def)
  have bud: "unat STUCK \<le> unat (tout ?s0) + 0" by simp
  have run: "trace (polls LIMIT_PULSE_UP ?s0 xs) = trace ?s0 @ mirror (PORTB ?s0) (phase ?s0 = Mirroring_High) xs
      \<and> (xs \<noteq> [] \<longrightarrow> output_high (polls LIMIT_PULSE_UP ?s0 xs) = input_high (last xs))"
    if "changes_within (unat STUCK) 0 (phase ?s0 = Mirroring_High) xs" for xs
    using inv bud that by (rule polls_quiet)
  have tr: "trace (loop LIMIT_PULSE_UP pins s) = trace s @ mirror (PORTB s) False pins"
    using run [of pins] ch by (simp add: loop_def)
  have each: "output_high (loop LIMIT_PULSE_UP (take (Suc i) pins) s) = input_high (pins ! i)"
    if "i < length pins" for i
  proof -
    have "changes_within (unat STUCK) 0 False (take (Suc i) pins)"
      using ch by (rule changes_within_take)
    moreover have "take (Suc i) pins = take i pins @ [pins ! i]"
      using that by (rule take_Suc_conv_app_nth)
    ultimately show ?thesis
      using run [of "take (Suc i) pins"] by (simp add: loop_def)
  qed
  from tr each mirror_no_Nop show ?thesis by blast
qed

theorem loop_mirrors_input_witness:
  "changes_within (unat STUCK) 0 False [0, 1, 3, 0, 1]
   \<and> \<not> output_high (setup_mcu 16000000 5 (reset 0 0))
   \<and> trace (loop True [0, 1, 3, 0, 1] (setup_mcu 16000000 5 (reset 0 0)))
       = trace (setup_mcu 16000000 5 (reset 0 0)) @ [Out 3, Out 1, Out 3]
   \<and> output_high (loop True (take (Suc 3) [0, 1, 3, 0, 1]) (setup_mcu 16000000 5 (reset 0 0)))
       = input_high ([0, 1, 3, 0, 1] ! 3)"
proof -
  have h1: "changes_within (unat STUCK) 0 False [0, 1, 3, 0, 1]"
    by (simp add: input_high_def BV_PB0 unat_STUCK)
  have h2: "\<not> output_high (setup_mcu 16000000 5 (reset 0 0))"
    by (simp add: output_high_def setup_PORTB and_not_and_same)
  have m: "mirror (PORTB (setup_mcu 16000000 5 (reset 0 0))) False [0, 1, 3, 0, 1] = [Out 3, Out 1, Out 3]"
    by (simp add: setup_PORTB reset_def input_high_def BV_PB0 BV_PB1 Let_def)
  note r = loop_mirrors_input [OF h1 h2, of True]
  from r have t: "trace (loop True [0, 1, 3, 0, 1] (setup_mcu 16000000 5 (reset 0 0)))
       = trace (setup_mcu 16000000 5 (reset 0 0)) @ [Out 3, Out 1, Out 3]"
    unfolding m by blast
  from r have "\<forall>i<length [0, 1, 3, 0, 1 :: 8 word].
         output_high (loop True (take (Suc i) [0, 1, 3, 0, 1]) (setup_mcu 16000000 5 (reset 0 0)))
           = input_high ([0, 1, 3, 0, 1] ! i)"
    by blast
  then have "3 < length [0, 1, 3, 0, 1 :: 8 word] \<longrightarrow>
         output_high (loop True (take (Suc 3) [0, 1, 3, 0, 1]) (setup_mcu 16000000 5 (reset 0 0)))
           = input_high ([0, 1, 3, 0, 1] ! 3)"
    by (rule spec)
  moreover have "3 < length [0, 1, 3, 0, 1 :: 8 word]" by simp
  ultimately have o: "output_high (loop True (take (Suc 3) [0, 1, 3, 0, 1]) (setup_mcu 16000000 5 (reset 0 0)))
           = input_high ([0, 1, 3, 0, 1] ! 3)"
    by blast
  from h1 h2 t o show ?thesis by blast
qed

text \<open>
  C8. Without \<open>LIMIT_PULSE_UP\<close>, polling in the second inner loop while the input reads
  high changes nothing at all, however many polls there are. So once a high read has set
  the output and taken the loop there, any number of further high reads leaves the state
  as it was after the first: the only write is the one that set PB1, and the output is
  high.
\<close>

theorem stuck_high_no_injection:
  "\<forall>p\<in>set pins. input_high p \<Longrightarrow>
     (\<forall>s'. phase s' = Mirroring_High \<longrightarrow> polls False s' pins = s')
   \<and> (input_high pinb \<longrightarrow>
        phase (loop False [pinb] s) = Mirroring_High
      \<and> loop False (pinb # pins) s = loop False [pinb] s
      \<and> trace (loop False (pinb # pins) s) = trace s @ [Out (PORTB s OR BV PB1)]
      \<and> output_high (loop False (pinb # pins) s))"
proof -
  assume hi: "\<forall>p\<in>set pins. input_high p"
  have idle: "polls False s' pins = s'" if "phase s' = Mirroring_High" for s'
    using that hi by (rule highs_idle)
  have enter: "phase (loop False [pinb] s) = Mirroring_High
      \<and> loop False (pinb # pins) s = loop False [pinb] s
      \<and> trace (loop False (pinb # pins) s) = trace s @ [Out (PORTB s OR BV PB1)]
      \<and> output_high (loop False (pinb # pins) s)" if "input_high pinb"
  proof -
    let ?s1 = "(write_PORTB (PORTB s OR BV PB1) (s\<lparr>tout := STUCK, phase := Mirroring_Low\<rparr>))
                 \<lparr>tout := STUCK, phase := Mirroring_High\<rparr>"
    have p: "poll False (s\<lparr>tout := STUCK, phase := Mirroring_Low\<rparr>) pinb = ?s1"
      using that by (simp add: poll_def poll_low_def input_high_def)
    have "polls False ?s1 pins = ?s1" by (rule idle) simp
    with p have e: "loop False (pinb # pins) s = ?s1" "loop False [pinb] s = ?s1"
      by (simp_all add: loop_def)
    have "output_high ?s1"
      using output_high_set [where p = "PORTB s"] by (simp add: write_PORTB_def output_high_def)
    with e show ?thesis by (simp add: write_PORTB_def)
  qed
  from idle enter show ?thesis by blast
qed

theorem stuck_high_no_injection_witness:
  "list_all input_high (replicate 100000 (1 :: 8 word)) \<and> input_high 1
   \<and> phase (loop False [1] (setup_mcu 16000000 5 (reset 0 0))) = Mirroring_High
   \<and> polls False (loop False [1] (setup_mcu 16000000 5 (reset 0 0))) (replicate 100000 1)
       = loop False [1] (setup_mcu 16000000 5 (reset 0 0))
   \<and> trace (loop False (1 # replicate 100000 1) (setup_mcu 16000000 5 (reset 0 0)))
       = trace (setup_mcu 16000000 5 (reset 0 0)) @ [Out 3]
   \<and> output_high (loop False (1 # replicate 100000 1) (setup_mcu 16000000 5 (reset 0 0)))"
proof -
  have h1: "\<forall>p\<in>set (replicate 100000 (1 :: 8 word)). input_high p"
    by (simp add: input_high_def BV_PB0)
  have h2: "input_high 1" by (simp add: input_high_def BV_PB0)
  have p: "PORTB (setup_mcu 16000000 5 (reset 0 0)) OR BV PB1 = 3"
    by (simp add: setup_PORTB reset_def BV_PB0 BV_PB1)
  have h0: "list_all input_high (replicate 100000 (1 :: 8 word))"
    using h1 by (simp only: list_all_iff)
  from h0 h2 stuck_high_no_injection [OF h1, of 1 "setup_mcu 16000000 5 (reset 0 0)"]
  show ?thesis unfolding p by blast
qed

text \<open>
  C9. In test mode the program, after the start-up, repeats: \<open>us2loops 500\<close> loop
  iterations, then a write of \<open>PORTB\<close> with PB1 toggled. The writes alternate between PB1
  set and PB1 clear, starting with set, so the output is high after an odd number of
  iterations and low after an even number, for every number of iterations.
\<close>

theorem test_mode_square_wave:
  "trace (main F_CPU LIMIT_PULSE_UP True intensity n pins s)
     = trace (setup_mcu F_CPU intensity s)
       @ concat (map (\<lambda>i. replicate (unat (us2loops F_CPU 500)) Nop
                    @ [Out (if even i then PORTB (setup_mcu F_CPU intensity s) OR BV PB1
                            else PORTB (setup_mcu F_CPU intensity s))]) [0..<n])
   \<and> output_high (main F_CPU LIMIT_PULSE_UP True intensity n pins s) = odd n"
proof -
  let ?s1 = "setup_mcu F_CPU intensity s"
  have c: "PORTB ?s1 AND BV PB1 = 0"
    by (simp add: setup_PORTB and_not_and_same)
  have x: "PORTB ?s1 XOR BV PB1 = PORTB ?s1 OR BV PB1"
    using c by (rule xor_eq_or)
  have m: "main F_CPU LIMIT_PULSE_UP True intensity n pins s = test_loop F_CPU n ?s1"
    by (simp add: main_def)
  have off: "\<not> output_high ?s1" using c by (simp add: output_high_def)
  have on: "output_high (?s1\<lparr>PORTB := PORTB ?s1 OR BV PB1\<rparr>)" by (rule output_high_set)
  show ?thesis
    unfolding m test_loop_eq x using off on by (simp add: output_high_def)
qed

text \<open>
  C10. The test \<open>!tout--\<close> is on the value before the decrement: with \<open>tout\<close> at 1 the
  body leaves it at 0 and emits nothing. So from a full countdown, up to \<open>STUCK\<close> polls of
  a low input emit nothing and leave \<open>STUCK\<close> minus their number, and poll number
  \<open>STUCK + 1\<close> emits the pulse and leaves \<open>tout\<close> at \<open>STUCK\<close>. Whatever the input, no
  poll ever starts with \<open>tout\<close> above \<open>STUCK\<close>: the value 65535 that the decrement of 0
  gives is overwritten before the next poll.
\<close>

theorem tout_test_before_decrement:
  "tout (loop LIMIT_PULSE_UP pins s) \<le> STUCK
   \<and> check_tout (s\<lparr>tout := 1\<rparr>) = s\<lparr>tout := 0\<rparr>
   \<and> ((\<forall>p\<in>set pins. \<not> input_high p) \<longrightarrow>
        (length pins \<le> unat STUCK \<longrightarrow>
           trace (loop LIMIT_PULSE_UP pins s) = trace s
         \<and> tout (loop LIMIT_PULSE_UP pins s) = STUCK - of_nat (length pins))
      \<and> (length pins = Suc (unat STUCK) \<longrightarrow>
           trace (loop LIMIT_PULSE_UP pins s) = trace s @ pulse s
         \<and> tout (loop LIMIT_PULSE_UP pins s) = STUCK))"
proof -
  let ?s0 = "s\<lparr>tout := STUCK, phase := Mirroring_Low\<rparr>"
  have bound: "tout (loop LIMIT_PULSE_UP pins s) \<le> STUCK"
    unfolding loop_def by (rule polls_tout_bound) simp
  have one: "check_tout (s\<lparr>tout := 1\<rparr>) = s\<lparr>tout := 0\<rparr>"
    by (simp add: check_tout_nonzero)
  have quiet: "trace (loop LIMIT_PULSE_UP pins s) = trace s
         \<and> tout (loop LIMIT_PULSE_UP pins s) = STUCK - of_nat (length pins)"
    if "\<forall>p\<in>set pins. \<not> input_high p" "length pins \<le> unat STUCK"
  proof -
    have "polls LIMIT_PULSE_UP ?s0 pins = ?s0\<lparr>tout := tout ?s0 - of_nat (length pins)\<rparr>"
      using that by (intro lows_quiet) simp_all
    then show ?thesis by (simp add: loop_def)
  qed
  have fire: "trace (loop LIMIT_PULSE_UP pins s) = trace s @ pulse s
         \<and> tout (loop LIMIT_PULSE_UP pins s) = STUCK"
    if "\<forall>p\<in>set pins. \<not> input_high p" "length pins = Suc (unat STUCK)"
  proof -
    have "polls LIMIT_PULSE_UP ?s0 pins =
       ?s0\<lparr>PORTB := PORTB ?s0 AND NOT (BV PB1), tout := STUCK, trace := trace ?s0 @ pulse ?s0\<rparr>"
      using that by (intro lows_period) simp_all
    then show ?thesis by (simp add: loop_def pulse_def)
  qed
  from bound one quiet fire show ?thesis by blast
qed

theorem tout_test_before_decrement_witness:
  "list_all (\<lambda>p. \<not> input_high p) (replicate 4000 (0 :: 8 word))
   \<and> length (replicate 4000 (0 :: 8 word)) \<le> unat STUCK
   \<and> trace (loop True (replicate 4000 0) (setup_mcu 9600000 10 (reset 0 0)))
       = trace (setup_mcu 9600000 10 (reset 0 0))
   \<and> tout (loop True (replicate 4000 0) (setup_mcu 9600000 10 (reset 0 0))) = 0
   \<and> list_all (\<lambda>p. \<not> input_high p) (replicate 4001 (0 :: 8 word))
   \<and> length (replicate 4001 (0 :: 8 word)) = Suc (unat STUCK)
   \<and> trace (loop True (replicate 4001 0) (setup_mcu 9600000 10 (reset 0 0)))
       = trace (setup_mcu 9600000 10 (reset 0 0)) @ pulse (setup_mcu 9600000 10 (reset 0 0))
   \<and> tout (loop True (replicate 4001 0) (setup_mcu 9600000 10 (reset 0 0))) = STUCK"
proof -
  let ?s = "setup_mcu 9600000 10 (reset 0 0)"
  have a1: "\<forall>p\<in>set (replicate 4000 (0 :: 8 word)). \<not> input_high p"
    by (simp add: input_high_def)
  have a2: "length (replicate 4000 (0 :: 8 word)) \<le> unat STUCK"
    by (simp add: unat_STUCK)
  from a1 a2 tout_test_before_decrement [of True "replicate 4000 0" ?s]
  have "trace (loop True (replicate 4000 0) ?s) = trace ?s
      \<and> tout (loop True (replicate 4000 0) ?s) = STUCK - of_nat (length (replicate 4000 (0 :: 8 word)))"
    by blast
  then have a: "trace (loop True (replicate 4000 0) ?s) = trace ?s
      \<and> tout (loop True (replicate 4000 0) ?s) = 0"
    by (simp add: STUCK_def)
  have h1: "\<forall>p\<in>set (replicate 4001 (0 :: 8 word)). \<not> input_high p"
    by (simp add: input_high_def)
  have h2: "length (replicate 4001 (0 :: 8 word)) = Suc (unat STUCK)"
    by (simp add: unat_STUCK)
  from h1 h2 tout_test_before_decrement [of True "replicate 4001 0" ?s]
  have b: "trace (loop True (replicate 4001 0) ?s) = trace ?s @ pulse ?s
      \<and> tout (loop True (replicate 4001 0) ?s) = STUCK"
    by blast
  have a0: "list_all (\<lambda>p. \<not> input_high p) (replicate 4000 (0 :: 8 word))"
    using a1 by (simp only: list_all_iff)
  have h0: "list_all (\<lambda>p. \<not> input_high p) (replicate 4001 (0 :: 8 word))"
    using h1 by (simp only: list_all_iff)
  from a0 a2 a h0 h2 b show ?thesis by blast
qed

end
